theory Spec2Isabelle
  imports Complex_Main
begin

section \<open>Values of the validated data\<close>

text \<open>
  The rules of the store receive JavaScript values. A number is an IEEE double; the
  rules below only compare numbers and hand them on, so a number is modelled as a real
  (every finite double is one), the two infinities, or NaN. No rule of this theory
  computes with the payload, so no rounding enters.
\<close>

datatype jsnum = NaN | NInf | Fin real | PInf

text \<open>
  A value is a primitive, a plain object (its own enumerable properties, in enumeration
  order, each key once), an array, a \<open>Date\<close> instance (its time value is not looked at
  by any rule here) or a function taking no argument, given by the value it produces.
\<close>

datatype jsval =
    Undefined
  | Null
  | Bool bool
  | Num jsnum
  | Str string
  | Obj "(string \<times> jsval) list"
  | Arr "jsval list"
  | DateV
  | Func jsval

datatype error = TypeError | Rejected string

text \<open>The \<open>typeof\<close> operator.\<close>

fun typeof :: "jsval \<Rightarrow> string" where
  "typeof Undefined = ''undefined''"
| "typeof Null = ''object''"
| "typeof (Bool b) = ''boolean''"
| "typeof (Num n) = ''number''"
| "typeof (Str s) = ''string''"
| "typeof (Obj kvs) = ''object''"
| "typeof (Arr xs) = ''object''"
| "typeof DateV = ''object''"
| "typeof (Func r) = ''function''"

text \<open>\<open>Boolean(v)\<close>: the truthiness of a value.\<close>

fun truthy :: "jsval \<Rightarrow> bool" where
  "truthy Undefined = False"
| "truthy Null = False"
| "truthy (Bool b) = b"
| "truthy (Num n) = (n \<noteq> NaN \<and> n \<noteq> Fin 0)"
| "truthy (Str s) = (s \<noteq> [])"
| "truthy v = True"

section \<open>The field handed to every rule\<close>

datatype seg = Key string | Idx nat

record field =
  path :: "seg list"
  fvalue :: jsval
  report_value :: jsval

text \<open>
  The capability predicates of the store (\<open>field: { isString() ... }\<close>) look at
  \<open>this.value\<close>, the field's own value, not at the \<open>value\<close> argument of the rule.
  The executor calls a rule with the field's current value as that argument, so the
  properties below are stated for a field \<open>f\<lparr>fvalue := v\<rparr>\<close> and the argument \<open>v\<close>
  wherever a rule asks the field.
\<close>

definition isString :: "field \<Rightarrow> bool" where
  "isString f = (typeof (fvalue f) = ''string'')"

definition isBool :: "field \<Rightarrow> bool" where
  "isBool f = (typeof (fvalue f) = ''boolean'')"

definition isNumber :: "field \<Rightarrow> bool" where
  "isNumber f = (typeof (fvalue f) = ''number'')"

definition isObject :: "field \<Rightarrow> bool" where
  "isObject f = (typeof (fvalue f) = ''object'')"

definition isArray :: "field \<Rightarrow> bool" where
  "isArray f = (case fvalue f of Arr xs \<Rightarrow> True | _ \<Rightarrow> False)"

definition isNull :: "field \<Rightarrow> bool" where
  "isNull f = (fvalue f = Null)"

definition isUndefined :: "field \<Rightarrow> bool" where
  "isUndefined f = (typeof (fvalue f) = ''undefined'')"

section \<open>Strings\<close>

text \<open>
  A string is a list of characters. \<open>toLowerCase\<close> is modelled on the letters A to Z;
  no character outside them lower-cases to one of the letters the rules compare with.
\<close>

definition lower_char :: "char \<Rightarrow> char" where
  "lower_char c =
     (let n = (of_char c :: nat) in if 65 \<le> n \<and> n \<le> 90 then char_of (n + 32) else c)"

definition toLowerCase :: "string \<Rightarrow> string" where
  "toLowerCase s = map lower_char s"

text \<open>The white space that \<open>trim\<close> and \<open>parseFloat\<close> strip, within ASCII.\<close>

definition is_space :: "char \<Rightarrow> bool" where
  "is_space c = ((of_char c :: nat) \<in> {9, 10, 11, 12, 13, 32})"

definition trim :: "string \<Rightarrow> string" where
  "trim s = rev (dropWhile is_space (rev (dropWhile is_space s)))"

definition is_digit :: "char \<Rightarrow> bool" where
  "is_digit c = (let n = (of_char c :: nat) in 48 \<le> n \<and> n \<le> 57)"

section \<open>The type rule\<close>

text \<open>
  \<open>type(accept, value, field)\<close>. \<open>ObjectId.isValid\<close> belongs to the identifier
  collaborator and is a parameter. A failing check returns the detail object
  \<open>{value, accept, current: typeof value}\<close>.
\<close>

definition type_rule :: "(jsval \<Rightarrow> bool) \<Rightarrow> jsval \<Rightarrow> jsval \<Rightarrow> field \<Rightarrow> jsval" where
  "type_rule isValid accept v f =
     (if typeof v = ''undefined'' then Bool True
      else
        let result =
          (if accept = Str ''object'' then isObject f \<or> isNull f
           else if accept = Str ''array'' then isArray f
           else if accept = Str ''string'' then isString f \<or> isNull f
           else if accept = Str ''objectId'' then v = Null \<or> isValid v
           else if accept = Str ''date'' then
             v = Str [] \<or> v = Null \<or> (typeof v = ''object'' \<and> v = DateV)
           else Str (typeof v) = accept)
        in if \<not> result
           then Obj [(''value'', v), (''accept'', accept), (''current'', Str (typeof v))]
           else Bool True)"

section \<open>Filters\<close>

text \<open>
  \<open>toBoolean\<close>: the guard asks the field, the switch reads the argument; a string method
  called on a value that is not a string is a TypeError.
\<close>

definition toBoolean :: "jsval \<Rightarrow> jsval \<Rightarrow> field \<Rightarrow> error + jsval" where
  "toBoolean accept v f =
     (if isString f then
        (case v of
           Str s \<Rightarrow>
             (let l = toLowerCase s in
              if l = ''yes'' \<or> l = ''true'' \<or> l = ''y'' \<or> l = ''1'' then Inr (Bool True)
              else if l = ''no'' \<or> l = ''false'' \<or> l = ''n'' \<or> l = ''0'' then Inr (Bool False)
              else Inr v)
         | _ \<Rightarrow> Inl TypeError)
      else Inr v)"

text \<open>
  The helper \<open>clearPhone\<close> of the utilities removes every character that is neither a
  digit nor \<open>+\<close> and trims the rest.
\<close>

definition clearPhone :: "string \<Rightarrow> string" where
  "clearPhone phone = trim (filter (\<lambda>c. is_digit c \<or> c = CHR ''+'') phone)"

text \<open>The filter \<open>clearPhone\<close>: a bare \<open>return\<close> yields \<open>undefined\<close>.\<close>

definition clearPhone_filter :: "jsval \<Rightarrow> jsval \<Rightarrow> field \<Rightarrow> jsval" where
  "clearPhone_filter accept v f =
     (case v of Str s \<Rightarrow> Str (clearPhone s) | _ \<Rightarrow> Undefined)"

text \<open>A sibling filter with the same kind of guard, which hands the value back.\<close>

definition trim_filter :: "jsval \<Rightarrow> jsval \<Rightarrow> field \<Rightarrow> error + jsval" where
  "trim_filter accept v f =
     (if isString f then (case v of Str s \<Rightarrow> Inr (Str (trim s)) | _ \<Rightarrow> Inl TypeError)
      else Inr v)"

section \<open>Numbers: comparison, bounds\<close>

text \<open>
  The relational comparison of two numbers answers true, false or, when one of them is
  NaN, undefined (\<open>None\<close>). \<open>a < b\<close> holds when the answer for \<open>(a, b)\<close> is true,
  \<open>a >= b\<close> when it is false; \<open>a <= b\<close> when the answer for \<open>(b, a)\<close> is false.
\<close>

fun is_less_than :: "jsnum \<Rightarrow> jsnum \<Rightarrow> bool option" where
  "is_less_than NaN b = None"
| "is_less_than a NaN = None"
| "is_less_than NInf b = Some (b \<noteq> NInf)"
| "is_less_than PInf b = Some False"
| "is_less_than (Fin x) NInf = Some False"
| "is_less_than (Fin x) PInf = Some True"
| "is_less_than (Fin x) (Fin y) = Some (x < y)"

definition js_lt :: "jsnum \<Rightarrow> jsnum \<Rightarrow> bool" where
  "js_lt a b = (is_less_than a b = Some True)"

definition js_ge :: "jsnum \<Rightarrow> jsnum \<Rightarrow> bool" where
  "js_ge a b = (is_less_than a b = Some False)"

definition js_le :: "jsnum \<Rightarrow> jsnum \<Rightarrow> bool" where
  "js_le a b = (is_less_than b a = Some False)"

text \<open>
  The filter \<open>bounds\<close>, on a number and a pair of numbers \<open>[accept[0], accept[1]]\<close>.
  It stores the result in the field and returns it.
\<close>

definition bounds :: "jsnum \<times> jsnum \<Rightarrow> jsnum \<Rightarrow> field \<Rightarrow> jsnum \<times> field" where
  "bounds accept v f =
     (let v' = (if js_lt v (fst accept) then fst accept
                else if js_ge v (snd accept) then snd accept
                else v)
      in (v', f\<lparr>fvalue := Num v'\<rparr>))"

section \<open>Coordinates\<close>

text \<open>\<open>value.split(',')\<close>: the pieces between the commas; never an empty list.\<close>

fun split_comma :: "string \<Rightarrow> string list" where
  "split_comma [] = [[]]"
| "split_comma (c # cs) =
     (if c = CHR '','' then [] # split_comma cs
      else (case split_comma cs of t # ts \<Rightarrow> (c # t) # ts | [] \<Rightarrow> [[c]]))"

text \<open>
  \<open>parseFloat\<close> is the language's; the rule below takes it as a parameter, so what is
  proved of the rule holds of the built-in one, rounding included. For evaluating the
  rule on a given string, \<open>parseFloat\<close> below reads the longest prefix that is a decimal
  literal (after leading white space: sign, \<open>Infinity\<close> or digits with an optional
  fraction and exponent) and takes its exact decimal value, NaN when there is none.
\<close>

definition digits_val :: "string \<Rightarrow> nat" where
  "digits_val ds = foldl (\<lambda>a c. 10 * a + (of_char c - 48)) 0 ds"

definition exponent :: "string \<Rightarrow> int" where
  "exponent r =
     (case r of
        [] \<Rightarrow> 0
      | c # r1 \<Rightarrow>
          if c = CHR ''e'' \<or> c = CHR ''E'' then
            (let neg = (case r1 of [] \<Rightarrow> False | d # _ \<Rightarrow> d = CHR ''-'');
                 r2 = (case r1 of [] \<Rightarrow> r1
                       | d # r' \<Rightarrow> if d = CHR ''-'' \<or> d = CHR ''+'' then r' else r1);
                 ds = takeWhile is_digit r2
             in if ds = [] then 0
                else if neg then - int (digits_val ds) else int (digits_val ds))
          else 0)"

definition parseFloat :: "string \<Rightarrow> jsnum" where
  "parseFloat s =
     (let t = dropWhile is_space s;
          neg = (case t of [] \<Rightarrow> False | c # _ \<Rightarrow> c = CHR ''-'');
          u = (case t of [] \<Rightarrow> t
               | c # r \<Rightarrow> if c = CHR ''-'' \<or> c = CHR ''+'' then r else t)
      in if take 8 u = ''Infinity'' then (if neg then NInf else PInf)
         else
           let ip = takeWhile is_digit u;
               r1 = dropWhile is_digit u;
               dot = (case r1 of [] \<Rightarrow> False | c # _ \<Rightarrow> c = CHR ''.'');
               fp = (if dot then takeWhile is_digit (tl r1) else []);
               r2 = (if dot then dropWhile is_digit (tl r1) else r1)
           in if ip = [] \<and> fp = [] then NaN
              else
                let m = real (digits_val ip) + real (digits_val fp) / 10 ^ length fp;
                    e = exponent r2;
                    a = (if 0 \<le> e then m * 10 ^ nat e else m / 10 ^ nat (- e))
                in Fin (if neg then - a else a))"

text \<open>
  \<open>isCoordsString(accept, value, field)\<close>. A value that is not a string has no
  \<open>split\<close> method, and the call is a TypeError.
\<close>

definition isCoordsString ::
  "(string \<Rightarrow> jsnum) \<Rightarrow> jsval \<Rightarrow> jsval \<Rightarrow> field \<Rightarrow> error + jsval" where
  "isCoordsString pf accept v f =
     (case v of
        Str s \<Rightarrow>
          (let coords = filter (\<lambda>n. n \<noteq> NaN) (map pf (split_comma s))
           in Inr (Bool (length coords = 2 \<and>
                         js_le (coords ! 1) (Fin 90) \<and>
                         js_ge (coords ! 1) (Fin (- 90)) \<and>
                         js_le (coords ! 0) (Fin 180) \<and>
                         js_ge (coords ! 0) (Fin (- 180)))))
      | _ \<Rightarrow> Inl TypeError)"

section \<open>Properties of objects and arrays\<close>

text \<open>The decimal name of an array index.\<close>

fun show_nat :: "nat \<Rightarrow> string" where
  "show_nat n =
     (if n < 10 then [char_of (48 + n)]
      else show_nat (n div 10) @ [char_of (48 + n mod 10)])"

text \<open>
  The own enumerable properties of a value: the pairs of a plain object, the elements
  of an array and the characters of a string under their indices. \<open>_.keys\<close> lists
  their names.
\<close>

definition own_entries :: "jsval \<Rightarrow> (string \<times> jsval) list" where
  "own_entries v =
     (case v of
        Obj kvs \<Rightarrow> kvs
      | Arr xs \<Rightarrow> zip (map show_nat [0..<length xs]) xs
      | Str cs \<Rightarrow> zip (map show_nat [0..<length cs]) (map (\<lambda>c. Str [c]) cs)
      | _ \<Rightarrow> [])"

definition lodash_keys :: "jsval \<Rightarrow> string list" where
  "lodash_keys v = map fst (own_entries v)"

text \<open>An array or string owns \<open>length\<close> as well, which is not enumerable.\<close>

definition has_own :: "jsval \<Rightarrow> string \<Rightarrow> bool" where
  "has_own v k =
     (k \<in> set (lodash_keys v) \<or>
      (case v of Arr xs \<Rightarrow> k = ''length'' | Str cs \<Rightarrow> k = ''length'' | _ \<Rightarrow> False))"

text \<open>
  \<open>value[name]\<close>. A name that is not an own property reads as \<open>undefined\<close>: what the
  built-in prototypes add are functions and objects, which no rule here tells from
  \<open>undefined\<close> (they are neither \<open>''\<close> nor \<open>null\<close>). The rules read properties
  behind their guards only, never from \<open>null\<close> or \<open>undefined\<close>.
\<close>

definition get_prop :: "jsval \<Rightarrow> string \<Rightarrow> jsval" where
  "get_prop v k =
     (case map_of (own_entries v) k of
        Some x \<Rightarrow> x
      | None \<Rightarrow>
          (case v of
             Arr xs \<Rightarrow> if k = ''length'' then Num (Fin (real (length xs))) else Undefined
           | Str cs \<Rightarrow> if k = ''length'' then Num (Fin (real (length cs))) else Undefined
           | _ \<Rightarrow> Undefined))"

text \<open>
  \<open>_.has(value, name)\<close> asks for an own property. Only when the name is no property of
  the value and is written as a path (lodash's path syntax needs a \<open>.\<close> or a \<open>[\<close>)
  does lodash walk the path instead; that walk is the parameter \<open>deep\<close>.
\<close>

definition is_path :: "string \<Rightarrow> bool" where
  "is_path name = (CHR ''.'' \<in> set name \<or> CHR ''['' \<in> set name)"

definition lodash_has :: "(jsval \<Rightarrow> string \<Rightarrow> bool) \<Rightarrow> jsval \<Rightarrow> string \<Rightarrow> bool" where
  "lodash_has deep v name =
     (v \<noteq> Null \<and> v \<noteq> Undefined \<and>
      (if has_own v name then True else if is_path name then deep v name else False))"

text \<open>\<open>_.isObject\<close>: objects, arrays and functions, not \<open>null\<close>.\<close>

definition lodash_isObject :: "jsval \<Rightarrow> bool" where
  "lodash_isObject v = (v \<noteq> Null \<and> (typeof v = ''object'' \<or> typeof v = ''function''))"

text \<open>
  \<open>name in v\<close> throws on a primitive. The rules ask for \<open>acceptEmpty\<close> and \<open>default\<close>
  only, which no built-in prototype carries, so own properties decide.
\<close>

definition in_op :: "string \<Rightarrow> jsval \<Rightarrow> error + bool" where
  "in_op k v =
     (case v of
        Obj kvs \<Rightarrow> Inr (has_own v k)
      | Arr xs \<Rightarrow> Inr (has_own v k)
      | DateV \<Rightarrow> Inr False
      | Func r \<Rightarrow> Inr False
      | _ \<Rightarrow> Inl TypeError)"

text \<open>\<open>out[name] = x\<close>: an existing key keeps its place, a new one goes last.\<close>

fun set_prop :: "(string \<times> jsval) list \<Rightarrow> string \<Rightarrow> jsval \<Rightarrow> (string \<times> jsval) list" where
  "set_prop [] k x = [(k, x)]"
| "set_prop (p # ps) k x = (if fst p = k then (k, x) # ps else p # set_prop ps k x)"

section \<open>What the executor makes of a rule's outcome\<close>

text \<open>
  Modelled from the spec: the Field Executor belongs to the \<open>pharmacy\<close> package, which
  is not part of the source. Its reading of a validator's outcome is taken from the
  outcome contract of the Rule Registry: \<open>true\<close> and \<open>undefined\<close> give no issue,
  \<open>false\<close> gives one issue of the rule, a sequence of issues is appended as it is, any
  other value gives one issue carrying it.
\<close>

datatype issue = Generic string | Detailed string jsval | Listed jsval

definition outcome_issues :: "string \<Rightarrow> jsval \<Rightarrow> issue list" where
  "outcome_issues rule outcome =
     (case outcome of
        Bool b \<Rightarrow> if b then [] else [Generic rule]
      | Undefined \<Rightarrow> []
      | Arr xs \<Rightarrow> map Listed xs
      | d \<Rightarrow> [Detailed rule d])"

text \<open>
  A report of a child field, as the executor returns it. The executor itself is the
  parameter \<open>validate\<close> of the composite rules: it takes the child's path, value and
  recipe literal, and either rejects or resolves to a report.
\<close>

record report =
  rvalue :: jsval
  issues :: "jsval list"

definition hasIssues :: "report \<Rightarrow> bool" where
  "hasIssues r = (issues r \<noteq> [])"

type_synonym executor = "seg list \<Rightarrow> jsval \<Rightarrow> jsval \<Rightarrow> error + report"

section \<open>The rule required\<close>

definition missing_issue :: "string \<Rightarrow> jsval" where
  "missing_issue name =
     Obj [(''path'', Str name), (''accept'', Bool True), (''current'', Bool False),
          (''value'', Undefined)]"

text \<open>
  \<open>required(accept, value, field)\<close>. The parameter is \<open>None\<close> when it is falsy and the
  list of names otherwise.
\<close>

definition required ::
  "(jsval \<Rightarrow> string \<Rightarrow> bool) \<Rightarrow> string list option \<Rightarrow> jsval \<Rightarrow> field \<Rightarrow> jsval" where
  "required deep accept v f =
     (case accept of
        None \<Rightarrow> Bool True
      | Some names \<Rightarrow>
          if isNull f then Bool True
          else if \<not> isObject f then Bool False
          else
            Arr (foldl
                   (\<lambda>missed name.
                      if lodash_has deep v name \<and> get_prop v name \<noteq> Str [] \<and>
                         get_prop v name \<noteq> Null
                      then missed
                      else missed @ [missing_issue name])
                   [] names))"

text \<open>The condition under which the callback of \<open>forEach\<close> records a name.\<close>

definition is_missing :: "(jsval \<Rightarrow> string \<Rightarrow> bool) \<Rightarrow> jsval \<Rightarrow> string \<Rightarrow> bool" where
  "is_missing deep v name =
     (\<not> lodash_has deep v name \<or> get_prop v name = Str [] \<or> get_prop v name = Null)"

section \<open>The rule properties\<close>

text \<open>
  The value a declared property is validated with, as the callback of
  \<open>Object.getOwnPropertyNames(accept).map\<close> finds it: \<open>None\<close> is the callback's
  \<open>return null\<close>, for which no child field is constructed. A default that is a function
  is called.
\<close>

definition default_value :: "jsval \<Rightarrow> jsval" where
  "default_value recipe =
     (let d = get_prop recipe ''default'' in case d of Func r \<Rightarrow> r | _ \<Rightarrow> d)"

definition from_default :: "jsval \<Rightarrow> error + jsval option" where
  "from_default recipe =
     (case in_op ''default'' recipe of
        Inl e \<Rightarrow> Inl e
      | Inr b \<Rightarrow> if b then Inr (Some (default_value recipe)) else Inr None)"

definition resolve_property ::
  "(jsval \<Rightarrow> string \<Rightarrow> bool) \<Rightarrow> (string \<times> jsval) list \<Rightarrow> jsval \<Rightarrow> string \<Rightarrow>
   error + jsval option" where
  "resolve_property deep accept v name =
     (let recipe = get_prop (Obj accept) name in
      if \<not> lodash_has deep v name then
        (if get_prop v name = Str [] then
           (case in_op ''acceptEmpty'' recipe of
              Inl e \<Rightarrow> Inl e
            | Inr b \<Rightarrow> if b then Inr (Some (get_prop v name)) else from_default recipe)
         else from_default recipe)
      else Inr (Some (get_prop v name)))"

text \<open>
  The synchronous pass over the declared names: the children that get a field, each
  with its name and value, in declared order; a throw of the callback ends the rule.
\<close>

fun spawn ::
  "(jsval \<Rightarrow> string \<Rightarrow> bool) \<Rightarrow> (string \<times> jsval) list \<Rightarrow> jsval \<Rightarrow> string list \<Rightarrow>
   error + (string \<times> jsval) list" where
  "spawn deep accept v [] = Inr []"
| "spawn deep accept v (name # names) =
     (case resolve_property deep accept v name of
        Inl e \<Rightarrow> Inl e
      | Inr c \<Rightarrow>
          (case spawn deep accept v names of
             Inl e \<Rightarrow> Inl e
           | Inr cs \<Rightarrow> Inr ((case c of None \<Rightarrow> [] | Some x \<Rightarrow> [(name, x)]) @ cs)))"

text \<open>
  \<open>Promise.all\<close> over the children: every child is validated at the path \<open>[name]\<close>
  with the recipe literal \<open>accept[name]\<close>; one rejection rejects the whole. The
  children run side by side; the reports come back in declared order, which is the
  order \<open>Promise.all\<close> resolves to. Which of several rejections wins depends on
  timing; the model keeps the one of the first child in declared order.
\<close>

fun await_all ::
  "executor \<Rightarrow> (string \<times> jsval) list \<Rightarrow> (string \<times> jsval) list \<Rightarrow>
   error + (string \<times> report) list" where
  "await_all validate accept [] = Inr []"
| "await_all validate accept ((name, x) # cs) =
     (case validate [Key name] x (get_prop (Obj accept) name) of
        Inl e \<Rightarrow> Inl e
      | Inr r \<Rightarrow>
          (case await_all validate accept cs of
             Inl e \<Rightarrow> Inl e
           | Inr rs \<Rightarrow> Inr ((name, r) # rs)))"

definition assemble :: "(string \<times> report) list \<Rightarrow> (string \<times> jsval) list" where
  "assemble reports = foldl (\<lambda>out (name, r). set_prop out name (rvalue r)) [] reports"

definition flatten :: "(string \<times> report) list \<Rightarrow> jsval list" where
  "flatten reports =
     foldl (\<lambda>result (name, r). if hasIssues r then result @ issues r else result) [] reports"

text \<open>
  \<open>properties(accept, value, field)\<close> returns its outcome and the field, whose report
  value it replaces by the assembled object once all children are back.
\<close>

definition properties ::
  "(jsval \<Rightarrow> string \<Rightarrow> bool) \<Rightarrow> executor \<Rightarrow> (string \<times> jsval) list \<Rightarrow> jsval \<Rightarrow> field \<Rightarrow>
   error + jsval \<times> field" where
  "properties deep validate accept v f =
     (if isNull f then Inr (Bool True, f)
      else if \<not> isObject f then Inr (Bool False, f)
      else
        (case spawn deep accept v (map fst accept) of
           Inl e \<Rightarrow> Inl e
         | Inr children \<Rightarrow>
             (case await_all validate accept children of
                Inl e \<Rightarrow> Inl e
              | Inr reports \<Rightarrow>
                  Inr (Arr (flatten reports), f\<lparr>report_value := Obj (assemble reports)\<rparr>))))"

section \<open>The rule oneOf\<close>

text \<open>
  The loop of \<open>oneOf\<close> over the copy of the alternatives: the next alternative is
  validated, at the field's own path, only after the report of the one before is in.
\<close>

fun loop :: "executor \<Rightarrow> field \<Rightarrow> jsval \<Rightarrow> jsval list \<Rightarrow> error + jsval" where
  "loop validate f v [] = Inr (Bool False)"
| "loop validate f v (recipe # rest) =
     (case validate (path f) v recipe of
        Inl e \<Rightarrow> Inl e
      | Inr r \<Rightarrow> if \<not> hasIssues r then Inr (Bool True) else loop validate f v rest)"

definition oneOf :: "executor \<Rightarrow> jsval list \<Rightarrow> jsval \<Rightarrow> field \<Rightarrow> error + jsval" where
  "oneOf validate accept v f = loop validate f v accept"

section \<open>Language maps\<close>

text \<open>\<open>_.includes(allowedLangs.concat('default'), lang)\<close> on a list of allowed values.\<close>

definition langMap :: "jsval list \<Rightarrow> jsval \<Rightarrow> field \<Rightarrow> jsval" where
  "langMap allowedLangs v f =
     (if \<not> lodash_isObject v then Bool True
      else Bool (list_ex (\<lambda>lang. Str lang \<in> set (allowedLangs @ [Str ''default'']))
                   (lodash_keys v)))"

text \<open>
  \<open>a && b\<close> is \<open>b\<close> when \<open>a\<close> is truthy and \<open>a\<close> otherwise. \<open>reduce\<close> without a seed
  starts from the first element and throws on an empty array.
\<close>

definition js_and :: "jsval \<Rightarrow> jsval \<Rightarrow> jsval" where
  "js_and a b = (if truthy a then b else a)"

definition reduce_unseeded :: "(jsval \<Rightarrow> string \<Rightarrow> jsval) \<Rightarrow> string list \<Rightarrow> error + jsval" where
  "reduce_unseeded g ks =
     (case ks of [] \<Rightarrow> Inl TypeError | k # rest \<Rightarrow> Inr (foldl g (Str k) rest))"

definition langMapRequired :: "jsval list \<Rightarrow> jsval \<Rightarrow> field \<Rightarrow> error + jsval" where
  "langMapRequired allowedLangs v f =
     (if \<not> lodash_isObject v then Inr (Bool True)
      else reduce_unseeded
             (\<lambda>result key. js_and result (Bool (truthy (get_prop v key))))
             (lodash_keys v))"

text \<open>
  An alternative is clean when the executor resolves to a report without issues, and
  dirty when it resolves to a report with issues.
\<close>

definition clean :: "executor \<Rightarrow> field \<Rightarrow> jsval \<Rightarrow> jsval \<Rightarrow> bool" where
  "clean validate f v recipe =
     (case validate (path f) v recipe of Inl e \<Rightarrow> False | Inr r \<Rightarrow> issues r = [])"

definition dirty :: "executor \<Rightarrow> field \<Rightarrow> jsval \<Rightarrow> jsval \<Rightarrow> bool" where
  "dirty validate f v recipe =
     (case validate (path f) v recipe of Inl e \<Rightarrow> False | Inr r \<Rightarrow> issues r \<noteq> [])"

text \<open>
  An executor to evaluate the composite rules with: for a recipe that is a bare type
  name it reports one issue when \<open>typeof\<close> the value is another name, for a recipe
  that is an object it reports none; it hands the value on unchanged and rejects any
  other recipe.
\<close>

definition type_executor :: executor where
  "type_executor p x recipe =
     (case recipe of
        Str t \<Rightarrow> Inr \<lparr>rvalue = x, issues = (if typeof x = t then [] else [Str ''type''])\<rparr>
      | Obj kvs \<Rightarrow> Inr \<lparr>rvalue = x, issues = []\<rparr>
      | _ \<Rightarrow> Inl (Rejected ''recipe''))"

text \<open>
  Declared properties and an object to evaluate \<open>properties\<close> on: \<open>a\<close> is supplied,
  \<open>b\<close> has a default producer, \<open>c\<close> is supplied empty, \<open>d\<close> has neither value nor
  default, and the object's \<open>z\<close> is not declared.
\<close>

definition sample_recipes :: "(string \<times> jsval) list" where
  "sample_recipes =
     [(''a'', Obj []),
      (''b'', Obj [(''default'', Func (Num (Fin 3)))]),
      (''c'', Obj [(''acceptEmpty'', Bool True)]),
      (''d'', Obj [])]"

definition sample_object :: jsval where
  "sample_object = Obj [(''a'', Str ''x''), (''c'', Str []), (''z'', Null)]"

text \<open>
  Whether a declared property gets a child field: the value has it, or reads as \<open>''\<close>
  under a recipe marked \<open>acceptEmpty\<close>, or the recipe carries a \<open>default\<close>.
\<close>

definition resolvable ::
  "(jsval \<Rightarrow> string \<Rightarrow> bool) \<Rightarrow> (string \<times> jsval) list \<Rightarrow> jsval \<Rightarrow> string \<Rightarrow> bool" where
  "resolvable deep accept v name =
     (lodash_has deep v name \<or>
      (get_prop v name = Str [] \<and> in_op ''acceptEmpty'' (get_prop (Obj accept) name) = Inr True) \<or>
      in_op ''default'' (get_prop (Obj accept) name) = Inr True)"

text \<open>A recipe literal on which \<open>in\<close> does not throw: anything but a primitive.\<close>

definition non_primitive :: "jsval \<Rightarrow> bool" where
  "non_primitive r = (typeof r = ''function'' \<or> (typeof r = ''object'' \<and> r \<noteq> Null))"

section \<open>Concrete fields\<close>

text \<open>The field of a root value: empty path, the value, and the value as its report's.\<close>

definition root_field :: "jsval \<Rightarrow> field" where
  "root_field v = \<lparr>path = [], fvalue = v, report_value = v\<rparr>"

section \<open>The type rule on an absent value\<close>

text \<open>
  C9. Whatever the declared type, the type validator answers \<open>true\<close> when the value is
  \<open>undefined\<close>, and so an absent value never produces a type issue.
\<close>

theorem type_undefined_passes:
  "type_rule isValid accept Undefined f = Bool True \<and>
   outcome_issues ''type'' (type_rule isValid accept Undefined f) = []"
  by (simp add: type_rule_def outcome_issues_def)

section \<open>Filters and the value they return\<close>

text \<open>
  C1. The claim asks every filter to return a value. The filter \<open>clearPhone\<close> does not:
  on a number it returns \<open>undefined\<close>, where the sibling filter \<open>trim\<close>, guarded the
  same way, returns the number it was given.
\<close>

theorem clearPhone_filter_non_string:
  "clearPhone_filter accept (Num (Fin 42)) f = Undefined \<and>
   trim_filter accept (Num (Fin 42)) (f\<lparr>fvalue := Num (Fin 42)\<rparr>) = Inr (Num (Fin 42))"
  by (simp add: clearPhone_filter_def trim_filter_def isString_def)

lemma toBoolean_result:
  "toBoolean accept (Str s) (f\<lparr>fvalue := Str s\<rparr>) =
     Inr (if toLowerCase s \<in> set [''yes'', ''true'', ''y'', ''1''] then Bool True
          else if toLowerCase s \<in> set [''no'', ''false'', ''n'', ''0''] then Bool False
          else Str s)"
  by (simp add: toBoolean_def isString_def Let_def)

lemma toBoolean_not_string:
  "typeof v \<noteq> ''string'' \<Longrightarrow> toBoolean accept v (f\<lparr>fvalue := v\<rparr>) = Inr v"
  by (simp add: toBoolean_def isString_def)

text \<open>
  C8. On a string, \<open>toBoolean\<close> looks at the lower-cased string only: \<open>yes\<close>, \<open>true\<close>,
  \<open>y\<close>, \<open>1\<close> give \<open>true\<close>, \<open>no\<close>, \<open>false\<close>, \<open>n\<close>, \<open>0\<close> give \<open>false\<close>, any
  other string comes back unchanged. A boolean comes back unchanged, and applying the
  filter to its own result changes nothing.
\<close>

theorem toBoolean_tokens_idempotent:
  "toBoolean accept (Str s) (f\<lparr>fvalue := Str s\<rparr>) =
     Inr (if toLowerCase s \<in> set [''yes'', ''true'', ''y'', ''1''] then Bool True
          else if toLowerCase s \<in> set [''no'', ''false'', ''n'', ''0''] then Bool False
          else Str s) \<and>
   toBoolean accept (Bool b) (f\<lparr>fvalue := Bool b\<rparr>) = Inr (Bool b) \<and>
   (\<exists>w. toBoolean accept v (f\<lparr>fvalue := v\<rparr>) = Inr w \<and>
        toBoolean accept w (f\<lparr>fvalue := w\<rparr>) = Inr w)"
proof -
  have idem: "\<exists>w. toBoolean accept v (f\<lparr>fvalue := v\<rparr>) = Inr w \<and>
        toBoolean accept w (f\<lparr>fvalue := w\<rparr>) = Inr w"
  proof (cases v)
    case (Str t)
    show ?thesis
      unfolding Str toBoolean_result
      by (auto simp: toBoolean_not_string toBoolean_result)
  qed (simp_all add: toBoolean_not_string)
  show ?thesis
    using idem by (simp add: toBoolean_result toBoolean_not_string)
qed

theorem toBoolean_tokens_idempotent_witness:
  "toBoolean Undefined (Str ''YeS'') (root_field (Str ''YeS'')) = Inr (Bool True) \<and>
   toBoolean Undefined (Str ''FALSE'') (root_field (Str ''FALSE'')) = Inr (Bool False) \<and>
   toBoolean Undefined (Str ''maybe'') (root_field (Str ''maybe'')) = Inr (Str ''maybe'') \<and>
   toBoolean Undefined (Bool True) (root_field (Bool True)) = Inr (Bool True)"
proof -
  have l: "toLowerCase ''YeS'' = ''yes''" "toLowerCase ''FALSE'' = ''false''"
    "toLowerCase ''maybe'' = ''maybe''"
    by code_simp+
  show ?thesis
    using toBoolean_tokens_idempotent [of Undefined "''YeS''" "root_field (Str ''YeS'')" True Undefined]
      toBoolean_tokens_idempotent [of Undefined "''FALSE''" "root_field (Str ''FALSE'')" True Undefined]
      toBoolean_tokens_idempotent [of Undefined "''maybe''" "root_field (Str ''maybe'')" True Undefined]
      toBoolean_tokens_idempotent [of Undefined "''x''" "root_field (Bool True)" True Undefined]
    by (simp add: l root_field_def)
qed

section \<open>The unseeded reduction of langMapRequired\<close>

text \<open>
  C10. The reduction starts from the name of the first key, so the value under the
  first key is never tested: on \<open>{a: '', b: 'x'}\<close> the rule answers \<open>true\<close> although
  \<open>a\<close> maps to the empty string. On an object without keys it throws.
\<close>

theorem langMapRequired_first_key_unchecked:
  "langMapRequired allowedLangs (Obj [(''a'', Str ''''), (''b'', Str ''x'')]) f = Inr (Bool True) \<and>
   \<not> truthy (get_prop (Obj [(''a'', Str ''''), (''b'', Str ''x'')]) ''a'') \<and>
   langMapRequired allowedLangs (Obj []) f = Inl TypeError"
  by (simp add: langMapRequired_def lodash_isObject_def lodash_keys_def own_entries_def
      reduce_unseeded_def js_and_def get_prop_def)

section \<open>The bounds filter\<close>

lemma js_le_not_NaN: "js_le a b \<Longrightarrow> a \<noteq> NaN \<and> b \<noteq> NaN"
  by (cases a; cases b) (simp_all add: js_le_def)

lemma js_ge_refl: "a \<noteq> NaN \<Longrightarrow> js_ge a a"
  by (cases a) (simp_all add: js_ge_def)

lemma js_le_refl: "a \<noteq> NaN \<Longrightarrow> js_le a a"
  by (cases a) (simp_all add: js_le_def)

lemma js_ge_swap: "js_ge a b \<Longrightarrow> js_le b a"
  by (cases a; cases b) (simp_all add: js_ge_def js_le_def)

lemma js_le_swap: "js_le a b \<Longrightarrow> js_ge b a"
  by (cases a; cases b) (simp_all add: js_ge_def js_le_def)

lemma js_not_lt_ge: "a \<noteq> NaN \<Longrightarrow> b \<noteq> NaN \<Longrightarrow> \<not> js_lt a b \<Longrightarrow> js_ge a b"
  by (cases a; cases b) (simp_all add: js_ge_def js_lt_def)

lemma js_not_ge_le: "a \<noteq> NaN \<Longrightarrow> b \<noteq> NaN \<Longrightarrow> \<not> js_ge a b \<Longrightarrow> js_le a b"
  by (cases a; cases b) (simp_all add: js_ge_def js_le_def)

text \<open>
  C6, as the claim states it: the result would be strictly below \<open>accept[1]\<close>. With the
  bounds \<open>[0, 10]\<close> the value 15 is replaced by 10, which is not below 10. Nor is the
  result at least \<open>accept[0]\<close> for every number and every pair: NaN comes back as it
  is, and with the bounds \<open>[10, 0]\<close> the value 12 is replaced by 0.
\<close>

theorem bounds_half_open_counterexample:
  "fst (bounds (Fin 0, Fin 10) (Fin 15) (root_field (Num (Fin 15)))) = Fin 10 \<and>
   \<not> js_lt (fst (bounds (Fin 0, Fin 10) (Fin 15) (root_field (Num (Fin 15))))) (Fin 10) \<and>
   fst (bounds (Fin 0, Fin 10) NaN (root_field (Num NaN))) = NaN \<and>
   \<not> js_ge (fst (bounds (Fin 0, Fin 10) NaN (root_field (Num NaN)))) (Fin 0) \<and>
   fst (bounds (Fin 10, Fin 0) (Fin 12) (root_field (Num (Fin 12)))) = Fin 0 \<and>
   \<not> js_ge (fst (bounds (Fin 10, Fin 0) (Fin 12) (root_field (Num (Fin 12))))) (Fin 10)"
  by (simp add: bounds_def js_lt_def js_ge_def Let_def)

text \<open>
  C6, amended. For bounds with \<open>accept[0] <= accept[1]\<close> and a value that is not NaN,
  the filter clamps into the closed interval: the result is at least \<open>accept[0]\<close> and at
  most \<open>accept[1]\<close>; a value below \<open>accept[0]\<close> becomes \<open>accept[0]\<close>, a value at or
  above \<open>accept[1]\<close> becomes \<open>accept[1]\<close>, any other value stays. The field's value is set
  to the result.
\<close>

theorem bounds_closed_interval:
  assumes "js_le lo hi" and "v \<noteq> NaN"
  shows "js_ge (fst (bounds (lo, hi) v f)) lo \<and>
         js_le (fst (bounds (lo, hi) v f)) hi \<and>
         fst (bounds (lo, hi) v f) =
           (if js_lt v lo then lo else if js_ge v hi then hi else v) \<and>
         fvalue (snd (bounds (lo, hi) v f)) = Num (fst (bounds (lo, hi) v f))"
proof -
  from assms(1) have n: "lo \<noteq> NaN" "hi \<noteq> NaN"
    using js_le_not_NaN by blast+
  have r: "fst (bounds (lo, hi) v f) =
           (if js_lt v lo then lo else if js_ge v hi then hi else v)"
    by (simp add: bounds_def Let_def)
  have "js_ge (if js_lt v lo then lo else if js_ge v hi then hi else v) lo"
    using assms n by (auto simp: js_ge_refl js_not_lt_ge js_le_swap)
  moreover have "js_le (if js_lt v lo then lo else if js_ge v hi then hi else v) hi"
    using assms n by (auto simp: js_le_refl js_not_ge_le)
  ultimately show ?thesis
    unfolding r by (simp add: bounds_def Let_def)
qed

theorem bounds_closed_interval_witness:
  "js_le (Fin 0) (Fin 10) \<and> Fin 15 \<noteq> NaN \<and>
   js_ge (fst (bounds (Fin 0, Fin 10) (Fin 15) (root_field (Num (Fin 15))))) (Fin 0) \<and>
   js_le (fst (bounds (Fin 0, Fin 10) (Fin 15) (root_field (Num (Fin 15))))) (Fin 10) \<and>
   fst (bounds (Fin 0, Fin 10) (Fin 15) (root_field (Num (Fin 15)))) = Fin 10"
proof -
  have h: "js_le (Fin 0) (Fin 10)" "Fin 15 \<noteq> NaN"
    by (simp_all add: js_le_def)
  show ?thesis
    using h bounds_closed_interval [OF h, of "root_field (Num (Fin 15))"]
    by (simp add: js_lt_def js_ge_def js_le_def)
qed

section \<open>The langMap validator\<close>

text \<open>
  C5, as the claim states it: a pass would mean that every key is allowed. The object
  \<open>{en: 'x', xx: 'y'}\<close> passes for the allowed language \<open>en\<close>, and its key \<open>xx\<close> is
  neither allowed nor \<open>default\<close>.
\<close>

theorem langMap_foreign_key_counterexample:
  "langMap [Str ''en''] (Obj [(''en'', Str ''x''), (''xx'', Str ''y'')])
     (root_field (Obj [(''en'', Str ''x''), (''xx'', Str ''y'')])) = Bool True \<and>
   ''xx'' \<in> set (lodash_keys (Obj [(''en'', Str ''x''), (''xx'', Str ''y'')])) \<and>
   Str ''xx'' \<notin> set ([Str ''en''] @ [Str ''default''])"
  by (simp add: langMap_def lodash_isObject_def lodash_keys_def own_entries_def)

text \<open>
  C5, amended. On an object (array or function) \<open>langMap\<close> passes exactly when at least
  one key of the value is among the allowed languages or is \<open>default\<close>; hence it passes
  when every key is allowed and there is a key, and fails when there is no key. On any
  other value it abstains and answers \<open>true\<close>.
\<close>

theorem langMap_some_key_allowed:
  "langMap allowedLangs v f =
     (if lodash_isObject v
      then Bool (\<exists>lang \<in> set (lodash_keys v). Str lang \<in> set allowedLangs \<or> lang = ''default'')
      else Bool True) \<and>
   (lodash_isObject v \<and> lodash_keys v \<noteq> [] \<and>
    (\<forall>lang \<in> set (lodash_keys v). Str lang \<in> set allowedLangs \<or> lang = ''default'')
      \<longrightarrow> langMap allowedLangs v f = Bool True) \<and>
   (lodash_isObject v \<and> lodash_keys v = [] \<longrightarrow> langMap allowedLangs v f = Bool False)"
proof -
  have "lodash_keys v \<noteq> [] \<Longrightarrow>
        \<forall>lang \<in> set (lodash_keys v). Str lang \<in> set allowedLangs \<or> lang = ''default'' \<Longrightarrow>
        \<exists>lang \<in> set (lodash_keys v). Str lang \<in> set allowedLangs \<or> lang = ''default''"
    by (cases "lodash_keys v") auto
  then show ?thesis
    by (auto simp: langMap_def list_ex_iff)
qed

theorem langMap_some_key_allowed_witness:
  "lodash_isObject (Obj [(''en'', Str ''x'')]) \<and>
   lodash_keys (Obj [(''en'', Str ''x'')]) \<noteq> [] \<and>
   langMap [Str ''en''] (Obj [(''en'', Str ''x'')]) (root_field (Obj [(''en'', Str ''x'')])) = Bool True \<and>
   lodash_isObject (Obj []) \<and> lodash_keys (Obj []) = [] \<and>
   langMap [Str ''en''] (Obj []) (root_field (Obj [])) = Bool False \<and>
   \<not> lodash_isObject (Str ''en'') \<and>
   langMap [Str ''en''] (Str ''en'') (root_field (Str ''en'')) = Bool True"
proof -
  have k: "lodash_keys (Obj [(''en'', Str ''x'')]) = [''en'']" "lodash_keys (Obj []) = []"
    by (simp_all add: lodash_keys_def own_entries_def)
  have o: "lodash_isObject (Obj [(''en'', Str ''x'')])" "lodash_isObject (Obj [])"
    "\<not> lodash_isObject (Str ''en'')"
    by (simp_all add: lodash_isObject_def)
  show ?thesis
    using langMap_some_key_allowed [of "[Str ''en'']" "Obj [(''en'', Str ''x'')]"
        "root_field (Obj [(''en'', Str ''x'')])"]
      langMap_some_key_allowed [of "[Str ''en'']" "Obj []" "root_field (Obj [])"]
      langMap_some_key_allowed [of "[Str ''en'']" "Str ''en''" "root_field (Str ''en'')"]
    by (simp add: k o)
qed

section \<open>The coordinate validator\<close>

text \<open>The second branch of the \<open>case\<close> in \<open>split_comma\<close> is never taken.\<close>

lemma split_comma_not_Nil: "split_comma s \<noteq> []"
  by (induction s) (auto split: list.splits)

text \<open>
  C7, as the claim states it: a string with a wrong number of tokens, or with a token
  that does not parse, would fail. The string \<open>1,abc,2\<close> has three tokens, of which
  \<open>abc\<close> does not parse, and passes.
\<close>

theorem isCoordsString_three_tokens_counterexample:
  "isCoordsString parseFloat Undefined (Str ''1,abc,2'') (root_field (Str ''1,abc,2''))
     = Inr (Bool True) \<and>
   split_comma ''1,abc,2'' = [''1'', ''abc'', ''2''] \<and>
   parseFloat ''abc'' = NaN"
  by code_simp

text \<open>
  C7, amended. For every string, \<open>isCoordsString\<close> passes exactly when, of the tokens
  between the commas, those that parse to a number (the others are dropped before
  counting) are two, the first in [-180, 180] and the second in [-90, 90]. So a string
  of exactly two tokens passes exactly when both parse and are in range, and a string
  with a single token fails.
\<close>

theorem isCoordsString_parsed_pair:
  "isCoordsString pf accept (Str s) f =
     Inr (Bool (\<exists>lon lat. filter (\<lambda>n. n \<noteq> NaN) (map pf (split_comma s)) = [lon, lat] \<and>
                  js_ge lon (Fin (- 180)) \<and> js_le lon (Fin 180) \<and>
                  js_ge lat (Fin (- 90)) \<and> js_le lat (Fin 90))) \<and>
   (split_comma s = [a, b] \<longrightarrow>
      isCoordsString pf accept (Str s) f =
        Inr (Bool (pf a \<noteq> NaN \<and> pf b \<noteq> NaN \<and>
                   js_ge (pf a) (Fin (- 180)) \<and> js_le (pf a) (Fin 180) \<and>
                   js_ge (pf b) (Fin (- 90)) \<and> js_le (pf b) (Fin 90)))) \<and>
   (length (split_comma s) < 2 \<longrightarrow> isCoordsString pf accept (Str s) f = Inr (Bool False))"
proof -
  define coords where "coords = filter (\<lambda>n. n \<noteq> NaN) (map pf (split_comma s))"
  have r: "isCoordsString pf accept (Str s) f =
      Inr (Bool (length coords = 2 \<and> js_le (coords ! 1) (Fin 90) \<and>
                 js_ge (coords ! 1) (Fin (- 90)) \<and> js_le (coords ! 0) (Fin 180) \<and>
                 js_ge (coords ! 0) (Fin (- 180))))"
    by (simp add: isCoordsString_def coords_def Let_def)
  have two: "length coords = 2 \<longleftrightarrow> (\<exists>lon lat. coords = [lon, lat])"
    by (cases coords; cases "tl coords") auto
  have p1: "(length coords = 2 \<and> js_le (coords ! 1) (Fin 90) \<and>
                 js_ge (coords ! 1) (Fin (- 90)) \<and> js_le (coords ! 0) (Fin 180) \<and>
                 js_ge (coords ! 0) (Fin (- 180))) \<longleftrightarrow>
            (\<exists>lon lat. coords = [lon, lat] \<and>
                  js_ge lon (Fin (- 180)) \<and> js_le lon (Fin 180) \<and>
                  js_ge lat (Fin (- 90)) \<and> js_le lat (Fin 90))"
    using two by auto
  have p2: "isCoordsString pf accept (Str s) f =
        Inr (Bool (pf a \<noteq> NaN \<and> pf b \<noteq> NaN \<and>
                   js_ge (pf a) (Fin (- 180)) \<and> js_le (pf a) (Fin 180) \<and>
                   js_ge (pf b) (Fin (- 90)) \<and> js_le (pf b) (Fin 90)))"
    if "split_comma s = [a, b]"
    using that by (auto simp: isCoordsString_def Let_def)
  have p3: "isCoordsString pf accept (Str s) f = Inr (Bool False)"
    if "length (split_comma s) < 2"
  proof -
    have "length coords \<le> length (split_comma s)"
      unfolding coords_def using length_filter_le [of _ "map pf (split_comma s)"] by simp
    with that have "length coords \<noteq> 2" by simp
    then show ?thesis unfolding r by simp
  qed
  show ?thesis
    using p1 p2 p3 unfolding r coords_def by blast
qed

theorem isCoordsString_parsed_pair_witness:
  "split_comma ''37.6,55.7'' = [''37.6'', ''55.7''] \<and>
   isCoordsString parseFloat Undefined (Str ''37.6,55.7'') (root_field (Str ''37.6,55.7''))
     = Inr (Bool True) \<and>
   split_comma ''200,55.7'' = [''200'', ''55.7''] \<and>
   isCoordsString parseFloat Undefined (Str ''200,55.7'') (root_field (Str ''200,55.7''))
     = Inr (Bool False) \<and>
   length (split_comma ''37.6'') < 2 \<and>
   isCoordsString parseFloat Undefined (Str ''37.6'') (root_field (Str ''37.6''))
     = Inr (Bool False)"
proof -
  have s: "split_comma ''37.6,55.7'' = [''37.6'', ''55.7'']"
    "split_comma ''200,55.7'' = [''200'', ''55.7'']"
    "split_comma ''37.6'' = [''37.6'']"
    by code_simp+
  have p: "parseFloat ''37.6'' = Fin (376 / 10)" "parseFloat ''55.7'' = Fin (557 / 10)"
    "parseFloat ''200'' = Fin 200"
    by code_simp+
  show ?thesis
    using isCoordsString_parsed_pair [of parseFloat Undefined "''37.6,55.7''"
        "root_field (Str ''37.6,55.7'')" "''37.6''" "''55.7''"]
      isCoordsString_parsed_pair [of parseFloat Undefined "''200,55.7''"
        "root_field (Str ''200,55.7'')" "''200''" "''55.7''"]
      isCoordsString_parsed_pair [of parseFloat Undefined "''37.6''"
        "root_field (Str ''37.6'')" "''37.6''" "''55.7''"]
    by (simp add: s p js_ge_def js_le_def)
qed

section \<open>What required reports\<close>

lemma required_foldl:
  "foldl (\<lambda>missed name.
            if lodash_has deep v name \<and> get_prop v name \<noteq> Str [] \<and> get_prop v name \<noteq> Null
            then missed else missed @ [missing_issue name]) acc names =
   acc @ map missing_issue (filter (is_missing deep v) names)"
  by (induction names arbitrary: acc) (auto simp: is_missing_def)

lemma required_object:
  assumes "typeof v = ''object''" and "v \<noteq> Null"
  shows "required deep (Some names) v (f\<lparr>fvalue := v\<rparr>) =
         Arr (map missing_issue (filter (is_missing deep v) names))"
  using assms by (simp add: required_def isNull_def isObject_def required_foldl)

text \<open>
  C4. On a non-null object, \<open>required\<close> returns one issue
  \<open>{path: name, accept: true, current: false}\<close> for each listed name that the value does
  not have, or has as \<open>''\<close> or \<open>null\<close>, in the order of the list, and nothing else; the
  executor finds no issue in it exactly when no listed name is missing. On \<open>null\<close> the
  rule answers \<open>true\<close>. A name without path syntax is missing from a plain object
  exactly when it is no key of it or its value is \<open>''\<close> or \<open>null\<close>.
\<close>

theorem required_missing_names:
  assumes "typeof v = ''object''" and "v \<noteq> Null"
  shows "required deep (Some names) v (f\<lparr>fvalue := v\<rparr>) =
           Arr (map missing_issue (filter (is_missing deep v) names)) \<and>
         (outcome_issues ''required'' (required deep (Some names) v (f\<lparr>fvalue := v\<rparr>)) = []
            \<longleftrightarrow> (\<forall>name \<in> set names. \<not> is_missing deep v name)) \<and>
         (\<forall>name. get_prop (missing_issue name) ''path'' = Str name \<and>
                 get_prop (missing_issue name) ''accept'' = Bool True \<and>
                 get_prop (missing_issue name) ''current'' = Bool False) \<and>
         required deep (Some names) Null (f\<lparr>fvalue := Null\<rparr>) = Bool True \<and>
         outcome_issues ''required'' (required deep (Some names) Null (f\<lparr>fvalue := Null\<rparr>)) = [] \<and>
         (\<forall>kvs name. v = Obj kvs \<and> \<not> is_path name \<longrightarrow>
            is_missing deep v name =
              (name \<notin> fst ` set kvs \<or> map_of kvs name = Some (Str []) \<or>
               map_of kvs name = Some Null))"
proof -
  have a: "required deep (Some names) v (f\<lparr>fvalue := v\<rparr>) =
           Arr (map missing_issue (filter (is_missing deep v) names))"
    using assms by (rule required_object)
  have b: "outcome_issues ''required'' (Arr (map missing_issue (filter (is_missing deep v) names))) = []
            \<longleftrightarrow> (\<forall>name \<in> set names. \<not> is_missing deep v name)"
    by (simp add: outcome_issues_def filter_empty_conv)
  have c: "get_prop (missing_issue name) ''path'' = Str name \<and>
           get_prop (missing_issue name) ''accept'' = Bool True \<and>
           get_prop (missing_issue name) ''current'' = Bool False" for name
    by (simp add: missing_issue_def get_prop_def own_entries_def)
  have d: "required deep (Some names) Null (f\<lparr>fvalue := Null\<rparr>) = Bool True"
    by (simp add: required_def isNull_def)
  have e: "is_missing deep (Obj kvs) name =
              (name \<notin> fst ` set kvs \<or> map_of kvs name = Some (Str []) \<or>
               map_of kvs name = Some Null)" if "\<not> is_path name" for kvs name
    using that
    by (auto simp: is_missing_def lodash_has_def has_own_def lodash_keys_def own_entries_def
        get_prop_def map_of_eq_None_iff split: option.splits)
  show ?thesis
    unfolding a d using b c e by (simp add: outcome_issues_def)
qed

theorem required_missing_names_witness:
  "typeof (Obj []) = ''object'' \<and> Obj [] \<noteq> Null \<and>
   required (\<lambda>v name. False) (Some [''a'']) (Obj []) (root_field (Obj [])) =
     Arr [missing_issue ''a''] \<and>
   get_prop (missing_issue ''a'') ''path'' = Str ''a'' \<and>
   outcome_issues ''required''
     (required (\<lambda>v name. False) (Some [''a'']) (Obj []) (root_field (Obj []))) =
     [Listed (missing_issue ''a'')] \<and>
   required (\<lambda>v name. False) (Some [''a'', ''b'', ''c''])
     (Obj [(''a'', Num (Fin 1)), (''b'', Str ''''), (''c'', Null)])
     (root_field (Obj [(''a'', Num (Fin 1)), (''b'', Str ''''), (''c'', Null)])) =
     Arr [missing_issue ''b'', missing_issue ''c'']"
proof -
  have h: "typeof (Obj kvs) = ''object''" "Obj kvs \<noteq> Null" for kvs
    by simp_all
  have r: "root_field v = (root_field v)\<lparr>fvalue := v\<rparr>" for v
    by (simp add: root_field_def)
  have m: "is_missing (\<lambda>v name. False) (Obj []) ''a''"
    "\<not> is_missing (\<lambda>v name. False) (Obj [(''a'', Num (Fin 1)), (''b'', Str ''''), (''c'', Null)]) ''a''"
    "is_missing (\<lambda>v name. False) (Obj [(''a'', Num (Fin 1)), (''b'', Str ''''), (''c'', Null)]) ''b''"
    "is_missing (\<lambda>v name. False) (Obj [(''a'', Num (Fin 1)), (''b'', Str ''''), (''c'', Null)]) ''c''"
    by (simp_all add: is_missing_def lodash_has_def has_own_def lodash_keys_def own_entries_def
        get_prop_def is_path_def)
  show ?thesis
    using required_missing_names [OF h, of "\<lambda>v name. False" "[''a'']" "[]" "root_field (Obj [])"]
      required_missing_names [OF h, of "\<lambda>v name. False" "[''a'', ''b'', ''c'']"
        "[(''a'', Num (Fin 1)), (''b'', Str ''''), (''c'', Null)]"
        "root_field (Obj [(''a'', Num (Fin 1)), (''b'', Str ''''), (''c'', Null)])"]
    unfolding r [symmetric]
    by (simp add: m outcome_issues_def)
qed

section \<open>The alternatives of oneOf\<close>

lemma loop_dirty_prefix:
  "list_all (dirty validate f v) pre \<Longrightarrow> loop validate f v (pre @ rest) = loop validate f v rest"
  by (induction pre) (auto simp: dirty_def hasIssues_def split: sum.splits)

lemma loop_clean_head:
  "clean validate f v recipe \<Longrightarrow> loop validate f v (recipe # post) = Inr (Bool True)"
  by (auto simp: clean_def hasIssues_def split: sum.splits)

lemma loop_True_clean:
  "loop validate f v accept = Inr (Bool True) \<Longrightarrow>
   \<exists>pre recipe post. accept = pre @ recipe # post \<and> list_all (dirty validate f v) pre \<and>
      clean validate f v recipe"
proof (induction accept)
  case Nil
  then show ?case by simp
next
  case (Cons a accept)
  show ?case
  proof (cases "clean validate f v a")
    case True
    then have "a # accept = [] @ a # accept \<and> list_all (dirty validate f v) [] \<and>
        clean validate f v a" by simp
    then show ?thesis by blast
  next
    case False
    with Cons.prems have d: "dirty validate f v a" and l: "loop validate f v accept = Inr (Bool True)"
      by (auto simp: clean_def dirty_def hasIssues_def split: sum.splits if_splits)
    from Cons.IH [OF l] obtain pre recipe post where
      "accept = pre @ recipe # post" "list_all (dirty validate f v) pre" "clean validate f v recipe"
      by blast
    with d have "a # accept = (a # pre) @ recipe # post \<and> list_all (dirty validate f v) (a # pre) \<and>
        clean validate f v recipe" by simp
    then show ?thesis by blast
  qed
qed

lemma loop_resolving:
  "\<forall>recipe \<in> set accept. \<exists>r. validate (path f) v recipe = Inr r \<Longrightarrow>
   loop validate f v accept = Inr (Bool (\<exists>recipe \<in> set accept. clean validate f v recipe))"
  by (induction accept) (auto simp: clean_def hasIssues_def split: sum.splits)

text \<open>
  C2. \<open>oneOf\<close> takes the alternatives in declared order. It answers \<open>true\<close> as soon as
  one alternative's report has no issue, all alternatives before it having reported
  issues; what the executor would do on the alternatives after it plays no part, so
  they are not tried. It answers \<open>true\<close> only in this way; so, when the executor
  resolves on every alternative, \<open>oneOf\<close> passes exactly when some alternative's
  report has no issue. When every alternative reports issues it answers \<open>false\<close>,
  of which the executor makes exactly one issue, the one of the rule \<open>oneOf\<close>,
  whatever the alternatives' issues were.
\<close>

theorem oneOf_first_clean_alternative:
  "(list_all (dirty validate f v) pre \<and> clean validate f v recipe \<longrightarrow>
      oneOf validate (pre @ recipe # post) v f = Inr (Bool True) \<and>
      outcome_issues ''oneOf'' (Bool True) = []) \<and>
   (oneOf validate accept v f = Inr (Bool True) \<longrightarrow>
      (\<exists>pre recipe post. accept = pre @ recipe # post \<and>
         list_all (dirty validate f v) pre \<and> clean validate f v recipe)) \<and>
   ((\<forall>recipe \<in> set accept. \<exists>r. validate (path f) v recipe = Inr r) \<longrightarrow>
      oneOf validate accept v f =
        Inr (Bool (\<exists>recipe \<in> set accept. clean validate f v recipe))) \<and>
   (list_all (dirty validate f v) accept \<longrightarrow>
      oneOf validate accept v f = Inr (Bool False) \<and>
      outcome_issues ''oneOf'' (Bool False) = [Generic ''oneOf''])"
proof -
  have t: "oneOf validate accept v f =
        Inr (Bool (\<exists>recipe \<in> set accept. clean validate f v recipe))"
    if "\<forall>recipe \<in> set accept. \<exists>r. validate (path f) v recipe = Inr r"
    using that unfolding oneOf_def by (rule loop_resolving)
  have a: "oneOf validate (pre @ recipe # post) v f = Inr (Bool True)"
    if "list_all (dirty validate f v) pre" "clean validate f v recipe"
  proof -
    have "loop validate f v (pre @ recipe # post) = loop validate f v (recipe # post)"
      using that(1) by (rule loop_dirty_prefix)
    also have "\<dots> = Inr (Bool True)"
      using that(2) by (rule loop_clean_head)
    finally show ?thesis by (simp add: oneOf_def)
  qed
  have b: "\<exists>pre recipe post. accept = pre @ recipe # post \<and>
         list_all (dirty validate f v) pre \<and> clean validate f v recipe"
    if "oneOf validate accept v f = Inr (Bool True)"
    using that unfolding oneOf_def by (rule loop_True_clean)
  have c: "oneOf validate accept v f = Inr (Bool False)"
    if "list_all (dirty validate f v) accept"
    using loop_dirty_prefix [OF that, of "[]"] by (simp add: oneOf_def)
  show ?thesis
    using a b c t by (simp add: outcome_issues_def)
qed

theorem oneOf_first_clean_alternative_witness:
  "list_all (dirty type_executor (root_field (Str ''x'')) (Str ''x'')) [Str ''number''] \<and>
   clean type_executor (root_field (Str ''x'')) (Str ''x'') (Str ''string'') \<and>
   type_executor [] (Str ''x'') Null = Inl (Rejected ''recipe'') \<and>
   oneOf type_executor [Str ''number'', Str ''string'', Null] (Str ''x'') (root_field (Str ''x''))
     = Inr (Bool True) \<and>
   list_all (dirty type_executor (root_field (Str ''x'')) (Str ''x''))
     [Str ''number'', Str ''boolean''] \<and>
   oneOf type_executor [Str ''number'', Str ''boolean''] (Str ''x'') (root_field (Str ''x''))
     = Inr (Bool False) \<and>
   outcome_issues ''oneOf'' (Bool False) = [Generic ''oneOf'']"
proof -
  have d: "dirty type_executor (root_field (Str ''x'')) (Str ''x'') (Str ''number'')"
    "dirty type_executor (root_field (Str ''x'')) (Str ''x'') (Str ''boolean'')"
    by (simp_all add: dirty_def type_executor_def)
  have c: "clean type_executor (root_field (Str ''x'')) (Str ''x'') (Str ''string'')"
    by (simp add: clean_def type_executor_def)
  have r: "type_executor [] (Str ''x'') Null = Inl (Rejected ''recipe'')"
    by (simp add: type_executor_def)
  show ?thesis
    using oneOf_first_clean_alternative [of type_executor "root_field (Str ''x'')" "Str ''x''"
        "[Str ''number'']" "Str ''string''" "[Null]" "[Str ''number'', Str ''boolean'']"]
    by (simp add: d c r)
qed

section \<open>The object assembled by properties\<close>

lemma set_prop_keys: "fst ` set (set_prop out k x) = insert k (fst ` set out)"
  by (induction out k x rule: set_prop.induct) auto

lemma assemble_foldl_keys:
  "fst ` set (foldl (\<lambda>out (name, r). set_prop out name (rvalue r)) acc reports) =
   fst ` set acc \<union> fst ` set reports"
proof (induction reports arbitrary: acc)
  case Nil
  then show ?case by simp
next
  case (Cons p reports)
  obtain name r where p: "p = (name, r)" by (cases p)
  have "fst ` set (foldl (\<lambda>out (name, r). set_prop out name (rvalue r))
                     (set_prop acc name (rvalue r)) reports) =
        fst ` set (set_prop acc name (rvalue r)) \<union> fst ` set reports"
    by (rule Cons.IH)
  then show ?case
    by (simp add: p set_prop_keys)
qed

lemma assemble_keys: "fst ` set (assemble reports) = fst ` set reports"
  by (simp add: assemble_def assemble_foldl_keys)

lemma await_all_names:
  "await_all validate accept children = Inr reports \<Longrightarrow> map fst reports = map fst children"
  by (induction children arbitrary: reports) (auto split: sum.splits)

lemma resolve_property_Some:
  "resolve_property deep accept v name = Inr c \<Longrightarrow>
   (c \<noteq> None) = resolvable deep accept v name"
  by (auto simp: resolve_property_def resolvable_def from_default_def Let_def
      split: if_splits sum.splits)

lemma spawn_names:
  "spawn deep accept v names = Inr children \<Longrightarrow>
   map fst children = filter (resolvable deep accept v) names"
proof (induction names arbitrary: children)
  case Nil
  then show ?case by simp
next
  case (Cons name names)
  from Cons.prems obtain c cs where
    c: "resolve_property deep accept v name = Inr c" and
    cs: "spawn deep accept v names = Inr cs" and
    ch: "children = (case c of None \<Rightarrow> [] | Some x \<Rightarrow> [(name, x)]) @ cs"
    by (auto split: sum.splits)
  from resolve_property_Some [OF c] Cons.IH [OF cs] ch show ?case
    by (cases c) auto
qed

lemma in_op_non_primitive: "non_primitive r \<Longrightarrow> \<exists>b. in_op k r = Inr b"
  by (cases r) (auto simp: non_primitive_def in_op_def)

lemma resolve_property_total:
  assumes "non_primitive (get_prop (Obj accept) name)"
  shows "\<exists>c. resolve_property deep accept v name = Inr c"
proof -
  from in_op_non_primitive [OF assms] obtain b1 b2 where
    "in_op ''acceptEmpty'' (get_prop (Obj accept) name) = Inr b1"
    "in_op ''default'' (get_prop (Obj accept) name) = Inr b2"
    by blast
  then show ?thesis
    by (simp add: resolve_property_def from_default_def Let_def)
qed

lemma spawn_total:
  "\<forall>name \<in> set names. non_primitive (get_prop (Obj accept) name) \<Longrightarrow>
   \<exists>children. spawn deep accept v names = Inr children"
proof (induction names)
  case Nil
  then show ?case by simp
next
  case (Cons name names)
  then obtain c cs where "resolve_property deep accept v name = Inr c"
    "spawn deep accept v names = Inr cs"
    using resolve_property_total [of accept name deep v] by auto
  then show ?case by simp
qed

lemma await_all_total:
  "\<forall>name \<in> fst ` set children.
     \<forall>x. \<exists>rep. validate [Key name] x (get_prop (Obj accept) name) = Inr rep \<Longrightarrow>
   \<exists>reports. await_all validate accept children = Inr reports"
proof (induction children)
  case Nil
  then show ?case by simp
next
  case (Cons c children)
  obtain name x where c: "c = (name, x)" by (cases c)
  from Cons.prems c obtain rep where
    r: "validate [Key name] x (get_prop (Obj accept) name) = Inr rep"
    by fastforce
  from Cons.prems have "\<forall>name \<in> fst ` set children.
     \<forall>x. \<exists>rep. validate [Key name] x (get_prop (Obj accept) name) = Inr rep"
    by simp
  from Cons.IH [OF this] obtain rs where "await_all validate accept children = Inr rs"
    by blast
  with r show ?case by (simp add: c)
qed

text \<open>
  C3. On a non-null object, when \<open>properties\<close> returns, the report value of the field
  is an object whose keys are exactly the declared names that the value has, or that
  read as \<open>''\<close> under a recipe marked \<open>acceptEmpty\<close>, or whose recipe carries a
  \<open>default\<close>; these are also exactly the names for which a child field is made, in
  declared order, and a declared name with none of the three gets neither a child nor
  a key. The rule does return when no declared recipe is a primitive and the executor
  resolves on every declared property.
\<close>

theorem properties_assembled_keys:
  assumes "typeof v = ''object''" and "v \<noteq> Null"
  shows "(properties deep validate accept v (f\<lparr>fvalue := v\<rparr>) = Inr (outcome, f') \<longrightarrow>
           (\<exists>out children.
              report_value f' = Obj out \<and>
              fst ` set out = {name \<in> fst ` set accept. resolvable deep accept v name} \<and>
              spawn deep accept v (map fst accept) = Inr children \<and>
              map fst children = filter (resolvable deep accept v) (map fst accept) \<and>
              (\<forall>name. \<not> resolvable deep accept v name \<longrightarrow>
                 name \<notin> fst ` set children \<and> name \<notin> fst ` set out))) \<and>
         ((\<forall>name \<in> fst ` set accept. non_primitive (get_prop (Obj accept) name)) \<and>
          (\<forall>name \<in> fst ` set accept.
             \<forall>x. \<exists>rep. validate [Key name] x (get_prop (Obj accept) name) = Inr rep) \<longrightarrow>
            (\<exists>outcome f'. properties deep validate accept v (f\<lparr>fvalue := v\<rparr>) = Inr (outcome, f')))"
proof -
  have g: "\<not> isNull (f\<lparr>fvalue := v\<rparr>)" "isObject (f\<lparr>fvalue := v\<rparr>)"
    using assms by (simp_all add: isNull_def isObject_def)
  have a: "\<exists>out children.
              report_value f' = Obj out \<and>
              fst ` set out = {name \<in> fst ` set accept. resolvable deep accept v name} \<and>
              spawn deep accept v (map fst accept) = Inr children \<and>
              map fst children = filter (resolvable deep accept v) (map fst accept) \<and>
              (\<forall>name. \<not> resolvable deep accept v name \<longrightarrow>
                 name \<notin> fst ` set children \<and> name \<notin> fst ` set out)"
    if p: "properties deep validate accept v (f\<lparr>fvalue := v\<rparr>) = Inr (outcome, f')"
  proof -
    from p g obtain children reports where
      s: "spawn deep accept v (map fst accept) = Inr children" and
      w: "await_all validate accept children = Inr reports" and
      f': "f' = f\<lparr>fvalue := v, report_value := Obj (assemble reports)\<rparr>"
      by (auto simp: properties_def split: sum.splits)
    have n: "map fst children = filter (resolvable deep accept v) (map fst accept)"
      using s by (rule spawn_names)
    have m: "map fst reports = map fst children"
      using w by (rule await_all_names)
    have sc: "fst ` set children = {name \<in> fst ` set accept. resolvable deep accept v name}"
    proof -
      have "fst ` set children = set (map fst children)" by simp
      also have "\<dots> = {name \<in> fst ` set accept. resolvable deep accept v name}"
        unfolding n by auto
      finally show ?thesis .
    qed
    have sr: "fst ` set reports = fst ` set children"
    proof -
      have "fst ` set reports = set (map fst reports)" by simp
      also have "\<dots> = set (map fst children)" by (simp only: m)
      finally show ?thesis by simp
    qed
    have k: "fst ` set (assemble reports) =
             {name \<in> fst ` set accept. resolvable deep accept v name}"
      by (simp only: assemble_keys sr sc)
    have "report_value f' = Obj (assemble reports)"
      by (simp add: f')
    with k s n sc show ?thesis by auto
  qed
  have b: "\<exists>outcome f'. properties deep validate accept v (f\<lparr>fvalue := v\<rparr>) = Inr (outcome, f')"
    if np: "\<forall>name \<in> fst ` set accept. non_primitive (get_prop (Obj accept) name)"
      and ex: "\<forall>name \<in> fst ` set accept.
             \<forall>x. \<exists>rep. validate [Key name] x (get_prop (Obj accept) name) = Inr rep"
  proof -
    from np have "\<forall>name \<in> set (map fst accept). non_primitive (get_prop (Obj accept) name)"
      by simp
    from spawn_total [OF this] obtain children where
      s: "spawn deep accept v (map fst accept) = Inr children" by blast
    have "set (map fst children) \<subseteq> set (map fst accept)"
      unfolding spawn_names [OF s] by auto
    then have "fst ` set children \<subseteq> fst ` set accept"
      by simp
    with ex have "\<forall>name \<in> fst ` set children.
             \<forall>x. \<exists>rep. validate [Key name] x (get_prop (Obj accept) name) = Inr rep"
      by blast
    from await_all_total [OF this] obtain reports where
      w: "await_all validate accept children = Inr reports" by blast
    show ?thesis
      using g s w by (simp add: properties_def)
  qed
  show ?thesis
    using a b by blast
qed

theorem properties_assembled_keys_witness:
  "typeof sample_object = ''object'' \<and> sample_object \<noteq> Null \<and>
   properties (\<lambda>v name. False) type_executor sample_recipes sample_object
     (root_field sample_object) =
     Inr (Arr [], (root_field sample_object)
            \<lparr>report_value := Obj [(''a'', Str ''x''), (''b'', Num (Fin 3)), (''c'', Str [])]\<rparr>) \<and>
   {name \<in> fst ` set sample_recipes.
      resolvable (\<lambda>v name. False) sample_recipes sample_object name} = {''a'', ''b'', ''c''} \<and>
   \<not> resolvable (\<lambda>v name. False) sample_recipes sample_object ''d'' \<and>
   ''z'' \<notin> fst ` set sample_recipes"
proof -
  have h: "typeof sample_object = ''object''" "sample_object \<noteq> Null"
    by (simp_all add: sample_object_def)
  have r: "root_field sample_object = (root_field sample_object)\<lparr>fvalue := sample_object\<rparr>"
    by (simp add: root_field_def)
  have e: "properties (\<lambda>v name. False) type_executor sample_recipes sample_object
     (root_field sample_object) =
     Inr (Arr [], (root_field sample_object)
            \<lparr>report_value := Obj [(''a'', Str ''x''), (''b'', Num (Fin 3)), (''c'', Str [])]\<rparr>)"
    by code_simp
  have q: "resolvable (\<lambda>v name. False) sample_recipes sample_object ''a''"
    "resolvable (\<lambda>v name. False) sample_recipes sample_object ''b''"
    "resolvable (\<lambda>v name. False) sample_recipes sample_object ''c''"
    "\<not> resolvable (\<lambda>v name. False) sample_recipes sample_object ''d''"
    by code_simp+
  have k: "{name \<in> fst ` set sample_recipes.
      resolvable (\<lambda>v name. False) sample_recipes sample_object name} = {''a'', ''b'', ''c''}"
    using q by (auto simp: sample_recipes_def)
  from properties_assembled_keys [OF h, of "\<lambda>v name. False" type_executor sample_recipes
      "root_field sample_object" "Arr []" "(root_field sample_object)
            \<lparr>report_value := Obj [(''a'', Str ''x''), (''b'', Num (Fin 3)), (''c'', Str [])]\<rparr>"]
  have "\<exists>out. Obj [(''a'', Str ''x''), (''b'', Num (Fin 3)), (''c'', Str [])] = Obj out \<and>
          fst ` set out = {''a'', ''b'', ''c''}"
    unfolding r [symmetric] k using e by auto
  with h e k q show ?thesis by (simp add: sample_recipes_def)
qed

end
